theory Spec2Isabelle
  imports Complex_Main
begin

section \<open>JavaScript values\<close>

text \<open>
  A JavaScript \<open>number\<close> is an IEEE double; a finite one is modelled as the real it
  denotes, next to the three non-finite results a division can produce.

  The counts the donut generator receives are numbers of check runs: natural numbers
  whose sum is below \<open>2^53\<close>. On such counts the sums \<open>sum + v\<close> and \<open>cumulative + value\<close>
  are exact in doubles, and the rounded quotient \<open>value / sum\<close> compares with \<open>1\<close> and with
  \<open>0.5\<close> as the exact quotient does (for \<open>value < sum\<close> the quotient is at most
  \<open>1 - 1/sum < 1 - 2^-53\<close>, a double below 1; for \<open>2 * value > sum\<close> it is at least
  \<open>1/2 + 1/(2 * sum) > 1/2 + 2^-54\<close>, beyond the midpoint to the double after \<open>1/2\<close>). So
  the model adds and compares exactly. The coordinates that \<open>scale\<close> computes are rounded
  results of \<open>Math.cos\<close> and \<open>Math.sin\<close>, which ECMAScript leaves to the platform: the
  rounding to the nearest double, \<open>Math.PI\<close>, \<open>Math.cos\<close> and \<open>Math.sin\<close> are parameters of the
  model.
\<close>

text \<open>\<open>fl x\<close> is the double that the exact result \<open>x\<close> of an operation is rounded to.\<close>

record arithmetic =
  fl :: "real \<Rightarrow> real"
  Math_PI :: real
  Math_cos :: "real \<Rightarrow> real"
  Math_sin :: "real \<Rightarrow> real"

datatype number = Num real | PosInfinity | NegInfinity | NaN

datatype js_error = TypeError

text \<open>\<open>a / b\<close> on finite operands: a zero divisor gives an infinity or \<open>NaN\<close>, never an
  exception. The quotient is kept exact here; where its value is used and not only
  compared, in \<open>scale\<close>, it is rounded.\<close>

definition js_div :: "real \<Rightarrow> real \<Rightarrow> number" where
  "js_div a b =
     (if b \<noteq> 0 then Num (a / b)
      else if 0 < a then PosInfinity
      else if a < 0 then NegInfinity
      else NaN)"

text \<open>\<open>x > y\<close> for a finite \<open>y\<close>: false on \<open>NaN\<close>.\<close>

fun js_gt :: "number \<Rightarrow> real \<Rightarrow> bool" where
  "js_gt (Num x) y = (y < x)"
| "js_gt PosInfinity y = True"
| "js_gt NegInfinity y = False"
| "js_gt NaN y = False"

text \<open>\<open>Array.prototype.reduce((sum, v) => sum + v)\<close> with no initial value: a \<open>TypeError\<close>
  on the empty array, otherwise the fold from the first element.\<close>

fun reduce_add :: "real list \<Rightarrow> js_error + real" where
  "reduce_add [] = Inl TypeError"
| "reduce_add (v # vs) = Inr (foldl (+) v vs)"

section \<open>The donut chart\<close>

text \<open>
  The array \<open>d\<close> of the source holds strings and numbers and is joined with spaces into
  the path string. A path is modelled as that array, before the join.
\<close>

datatype tok = S string | N number

record donut_path =
  name :: string
  path :: "tok list"

record donut =
  paths :: "donut_path list"
  height :: real
  width :: real
  className :: string

text \<open>\<open>scale\<close>: the point at \<open>value / sum\<close> of the full turn, clockwise from twelve o'clock,
  on the circle of the given radius around \<open>(cxy, cxy)\<close>, every operation rounded to a
  double (\<open>fl\<close>). A non-finite quotient makes both coordinates \<open>NaN\<close>.\<close>

definition scale :: "arithmetic \<Rightarrow> real \<Rightarrow> real \<Rightarrow> real \<Rightarrow> real \<Rightarrow> tok list" where
  "scale fp v radius cxy sumv =
     (case js_div v sumv of
        Num q \<Rightarrow>
          (let radians =
                 fl fp (fl fp (fl fp (fl fp q * Math_PI fp) * 2) - fl fp (Math_PI fp / 2))
           in [N (Num (fl fp (fl fp (radius * Math_cos fp radians) + cxy))),
               N (Num (fl fp (fl fp (radius * Math_sin fp radians) + cxy)))])
      | _ \<Rightarrow> [N NaN, N NaN])"

text \<open>The body of the \<open>for\<close> loop over the map's entries, with the two variables it
  mutates (\<open>cumulative\<close> and \<open>paths\<close>) as accumulators.\<close>

fun donut_loop ::
  "arithmetic \<Rightarrow> real \<Rightarrow> real \<Rightarrow> real \<Rightarrow> real \<Rightarrow> real \<Rightarrow> donut_path list \<Rightarrow> (string \<times> real) list
    \<Rightarrow> donut_path list" where
  "donut_loop fp outerRadius innerRadius cx sumv cumulative ps [] = ps"
| "donut_loop fp outerRadius innerRadius cx sumv cumulative ps ((nm, v) # rest) =
     (if v = 0 then donut_loop fp outerRadius innerRadius cx sumv cumulative ps rest
      else
        let portion = js_div v sumv in
        if portion = Num 1 then
          let cy = cx;
              x2 = cx - 1 / 100;
              y1 = cy - outerRadius;
              y2 = cy - innerRadius;
              d = [S ''M'', N (Num cx), N (Num y1)]
                  @ [S ''A'', N (Num outerRadius), N (Num outerRadius), N (Num 0), N (Num 1),
                     N (Num 1), N (Num x2), N (Num y1)]
                  @ [S ''L'', N (Num x2), N (Num y2)]
                  @ [S ''A'', N (Num innerRadius), N (Num innerRadius), N (Num 0), N (Num 1),
                     N (Num 0), N (Num cx), N (Num y2)]
          in donut_loop fp outerRadius innerRadius cx sumv cumulative
               (ps @ [\<lparr>name = nm, path = d\<rparr>]) rest
        else
          let cumulative_plus_value = cumulative + v;
              d = [S ''M''] @ scale fp cumulative outerRadius cx sumv
                  @ [S ''A'', N (Num outerRadius), N (Num outerRadius), N (Num 0)]
                  @ [N (Num (if js_gt portion (1 / 2) then 1 else 0))]
                  @ [N (Num 1)]
                  @ scale fp cumulative_plus_value outerRadius cx sumv
                  @ [S ''L'']
                  @ scale fp cumulative_plus_value innerRadius cx sumv
                  @ [S ''A'', N (Num innerRadius), N (Num innerRadius), N (Num 0)]
                  @ [N (Num (if js_gt portion (1 / 2) then 1 else 0))]
                  @ [N (Num 0)]
                  @ scale fp cumulative innerRadius cx sumv
          in donut_loop fp outerRadius innerRadius cx sumv (cumulative + v)
               (ps @ [\<lparr>name = nm, path = d\<rparr>]) rest)"

definition donutSVG ::
  "arithmetic \<Rightarrow> (string \<times> real) list \<Rightarrow> real \<Rightarrow> real \<Rightarrow> js_error + donut" where
  "donutSVG fp donutValuesMap outerRadius innerRadius =
     (let diameter = outerRadius * 2 in
      case reduce_add (map snd donutValuesMap) of
        Inl e \<Rightarrow> Inl e
      | Inr sumv \<Rightarrow>
          (let cx = diameter / 2
           in Inr \<lparr>paths = donut_loop fp outerRadius innerRadius cx sumv 0 [] donutValuesMap,
                   height = diameter,
                   width = diameter,
                   className = ''donut-chart''\<rparr>))"

section \<open>Strings\<close>

text \<open>
  A string is the list of the bytes of its UTF-8 encoding. \<open>white_space\<close> lists the
  encodings of the code points that \<open>String.prototype.trim\<close> removes, the WhiteSpace and
  LineTerminator of ECMAScript: U+0009 to U+000D, U+0020, U+00A0, U+1680, U+2000 to
  U+200A, U+2028, U+2029, U+202F, U+205F, U+3000 and U+FEFF.
\<close>

definition white_space :: "string list" where
  "white_space =
     [[CHR 0x09], [CHR 0x0A], [CHR 0x0B], [CHR 0x0C], [CHR 0x0D], [CHR 0x20],
      [CHR 0xC2, CHR 0xA0],
      [CHR 0xE1, CHR 0x9A, CHR 0x80],
      [CHR 0xE2, CHR 0x80, CHR 0x80], [CHR 0xE2, CHR 0x80, CHR 0x81],
      [CHR 0xE2, CHR 0x80, CHR 0x82], [CHR 0xE2, CHR 0x80, CHR 0x83],
      [CHR 0xE2, CHR 0x80, CHR 0x84], [CHR 0xE2, CHR 0x80, CHR 0x85],
      [CHR 0xE2, CHR 0x80, CHR 0x86], [CHR 0xE2, CHR 0x80, CHR 0x87],
      [CHR 0xE2, CHR 0x80, CHR 0x88], [CHR 0xE2, CHR 0x80, CHR 0x89],
      [CHR 0xE2, CHR 0x80, CHR 0x8A],
      [CHR 0xE2, CHR 0x80, CHR 0xA8], [CHR 0xE2, CHR 0x80, CHR 0xA9],
      [CHR 0xE2, CHR 0x80, CHR 0xAF],
      [CHR 0xE2, CHR 0x81, CHR 0x9F],
      [CHR 0xE3, CHR 0x80, CHR 0x80],
      [CHR 0xEF, CHR 0xBB, CHR 0xBF]]"

text \<open>\<open>strip_start ws s\<close> removes from the front of \<open>s\<close> every leading occurrence of one of
  the byte sequences \<open>ws\<close>.\<close>

function strip_start :: "string list \<Rightarrow> string \<Rightarrow> string" where
  "strip_start ws s =
     (case filter (\<lambda>w. w \<noteq> [] \<and> take (length w) s = w) ws of
        [] \<Rightarrow> s
      | w # _ \<Rightarrow> strip_start ws (drop (length w) s))"
  by pat_completeness auto
termination
proof (relation "measure (\<lambda>(ws, s). length s)")
  show "wf (measure (\<lambda>(ws, s). length s))" by simp
next
  fix ws :: "string list" and s w :: string and rest :: "string list"
  assume "filter (\<lambda>w. w \<noteq> [] \<and> take (length w) s = w) ws = w # rest"
  then have "w \<in> set (filter (\<lambda>w. w \<noteq> [] \<and> take (length w) s = w) ws)" by simp
  then have w: "w \<noteq> []" and tk: "take (length w) s = w" by simp_all
  have "length (take (length w) s) = length w" by (simp only: tk)
  then have "length w \<le> length s" by simp
  with w show "((ws, drop (length w) s), (ws, s)) \<in> measure (\<lambda>(ws, s). length s)"
    by (cases w) auto
qed

declare strip_start.simps [simp del]

text \<open>\<open>String.prototype.trim\<close>: the white space is removed from the front, then from the
  back (a code point's encoding is never the end of another's).\<close>

definition trim :: "string \<Rightarrow> string" where
  "trim s = rev (strip_start (map rev white_space) (rev (strip_start white_space s)))"

text \<open>\<open>Array.prototype.join\<close>.\<close>

fun js_join :: "string \<Rightarrow> string list \<Rightarrow> string" where
  "js_join sep [] = []"
| "js_join sep [x] = x"
| "js_join sep (x # y # ys) = x @ sep @ js_join sep (y # ys)"

text \<open>\<open>xs.slice(0, -1)\<close> and \<open>xs.slice(-1)\<close>.\<close>

definition slice_init :: "'a list \<Rightarrow> 'a list" where
  "slice_init xs = butlast xs"

definition slice_last :: "'a list \<Rightarrow> 'a list" where
  "slice_last xs = (if xs = [] then [] else [last xs])"

text \<open>The decimal numeral a template literal prints for a natural number (a count of
  checks, a pull request number; JavaScript prints integers this way below \<open>10^21\<close>).\<close>

function string_of_nat :: "nat \<Rightarrow> string" where
  "string_of_nat n =
     (if n < 10 then [''0123456789'' ! n]
      else string_of_nat (n div 10) @ [''0123456789'' ! (n mod 10)])"
  by pat_completeness auto
termination
  by (relation "measure id") auto

declare string_of_nat.simps [simp del]

section \<open>Check runs\<close>

text \<open>
  The entities the components read, with the fields they read. The conclusions are the
  members the popover names, and one constructor for every other conclusion.
\<close>

datatype APICheckConclusion =
  Success | Failure | Canceled | ActionRequired | TimedOut | OtherConclusion string

datatype RefCheckOutputType = Default | Actions

text \<open>An optional field that may also hold \<open>null\<close> (\<open>summary?: string | null\<close>).\<close>

datatype 'a nullish = Undefined | Null | Present 'a

record IRefCheckOutput =
  title :: "string option"
  summary :: "string nullish"
  text' :: "string option"
  type' :: RefCheckOutputType

record IRefCheck =
  run_name :: string
  conclusion :: "APICheckConclusion option"
  htmlUrl :: "string option"
  output' :: IRefCheckOutput
  actionsWorkflowRunId :: "nat option"

record ICombinedRefCheck =
  checks :: "IRefCheck list"

record GitHubRepository =
  htmlURL :: "string option"

text \<open>
  What the components take from modules outside these sources (\<open>lib/ci-checks\<close>) or from
  the platform, as parameters of the model: the adjective of a conclusion, the category
  under which a check run is counted, and \<open>String.prototype.toLocaleLowerCase\<close> (which
  depends on the locale).
\<close>

record externals =
  getCheckRunConclusionAdjective :: "APICheckConclusion option \<Rightarrow> string"
  checkCategory :: "IRefCheck \<Rightarrow> string"
  toLocaleLowerCase :: "string \<Rightarrow> string"

text \<open>The distinct elements of a list in the order of their first occurrence.\<close>

fun first_occurrences :: "'a list \<Rightarrow> 'a list" where
  "first_occurrences [] = []"
| "first_occurrences (x # xs) = x # filter (\<lambda>y. y \<noteq> x) (first_occurrences xs)"


section \<open>The logs panel\<close>

record ICICheckRunLogsProps =
  checkRun :: IRefCheck
  loadingActionLogs :: bool
  loadingActionWorkflows :: bool
  baseHref :: "string option"

text \<open>The elements \<open>CICheckRunLogs\<close> renders. \<open>Div c t\<close> is a \<open>div\<close> of class \<open>c\<close> holding the
  text \<open>t\<close>; \<open>MetaOutput\<close> is the \<open>meta-output\<close> div with its optional heading and optional
  summary markdown; \<open>LogsItem\<close> is the outer div with its \<open>actions\<close> class flag and the two
  children of \<open>ci-check-list-item-logs-output\<close> (\<open>None\<close> where the source renders \<open>null\<close>).\<close>

datatype element =
    Div string string
  | SandboxedMarkdown string "string option"
  | MetaOutput "string option" "element option"
  | CICheckRunActionLogs IRefCheckOutput bool
  | LogsItem bool "element option" "element option"

definition hasActionsWorkflowLogs :: "ICICheckRunLogsProps \<Rightarrow> bool" where
  "hasActionsWorkflowLogs p = (actionsWorkflowRunId (checkRun p) \<noteq> None)"

definition isNoOutputText :: "ICICheckRunLogsProps \<Rightarrow> IRefCheckOutput \<Rightarrow> bool" where
  "isNoOutputText p out =
     (\<not> hasActionsWorkflowLogs p \<and>
      type' out = Default \<and>
      (case text' out of None \<Rightarrow> True | Some t \<Rightarrow> trim t = []))"

definition isNoAdditionalInfoToDisplay :: "ICICheckRunLogsProps \<Rightarrow> IRefCheckOutput \<Rightarrow> bool" where
  "isNoAdditionalInfoToDisplay p out =
     (isNoOutputText p out \<and>
      (case summary out of Undefined \<Rightarrow> True | Null \<Rightarrow> True | Present s \<Rightarrow> trim s = []))"

definition getNonActionsOutputMD :: "IRefCheckOutput \<Rightarrow> string option" where
  "getNonActionsOutputMD out =
     (let mainOutput =
            (case text' out of
               Some t \<Rightarrow> if type' out \<noteq> Actions then trim t else []
             | None \<Rightarrow> []);
          summaryOutput =
            (case summary out of
               Present s \<Rightarrow> if trim s \<noteq> [] then s else []
             | _ \<Rightarrow> []);
          combinedOutput = summaryOutput @ mainOutput
      in if combinedOutput = [] then None else Some combinedOutput)"

definition renderNonActionsLogOutput :: "ICICheckRunLogsProps \<Rightarrow> IRefCheckOutput \<Rightarrow> element option" where
  "renderNonActionsLogOutput p out =
     (let markdown = getNonActionsOutputMD out
      in case markdown of
           None \<Rightarrow> None
         | Some md \<Rightarrow>
             if type' out = Actions then None
             else Some (SandboxedMarkdown md (baseHref p)))"

definition renderMetaOutput ::
  "externals \<Rightarrow> ICICheckRunLogsProps \<Rightarrow> IRefCheckOutput \<Rightarrow> string \<Rightarrow> element option" where
  "renderMetaOutput ext p out checkRunName =
     (if hasActionsWorkflowLogs p then None
      else
        let displayTitle =
              (case title out of
                 None \<Rightarrow> False
               | Some t \<Rightarrow>
                   trim t \<noteq> [] \<and>
                   toLocaleLowerCase ext (trim t) \<noteq> toLocaleLowerCase ext (trim checkRunName));
            cleanSummary =
              (case summary out of
                 Present s \<Rightarrow> if trim s \<noteq> [] then trim s else []
               | _ \<Rightarrow> []);
            renderSummary = (cleanSummary \<noteq> [] \<and> type' out = Actions)
        in Some (MetaOutput
                   (if displayTitle then title out else None)
                   (if renderSummary then Some (SandboxedMarkdown cleanSummary (baseHref p))
                    else None)))"

definition renderEmptyLogOutput :: element where
  "renderEmptyLogOutput = Div ''no-logs-to-display'' ''No additional information to display.''"

text \<open>The text is \<open>Loading\<close> followed by an ellipsis (U+2026).\<close>

definition renderLoadingLogs :: element where
  "renderLoadingLogs =
     Div ''no-logs-to-display'' (''Loading'' @ [CHR 0xE2, CHR 0x80, CHR 0xA6])"

definition render :: "externals \<Rightarrow> ICICheckRunLogsProps \<Rightarrow> element" where
  "render ext p =
     (let out = output' (checkRun p); nm = run_name (checkRun p) in
      if loadingActionWorkflows p then renderLoadingLogs
      else
        let logsOutput =
              (if hasActionsWorkflowLogs p
               then Some (CICheckRunActionLogs out (loadingActionLogs p))
               else renderNonActionsLogOutput p out)
        in LogsItem (hasActionsWorkflowLogs p)
             (if isNoAdditionalInfoToDisplay p out
              then Some renderEmptyLogOutput
              else renderMetaOutput ext p out nm)
             logsOutput)"

section \<open>The dispatcher\<close>

text \<open>
  Modelled from the spec: the dispatcher, whose class is not among the sources. The
  specification describes it as "a dispatcher exposing (a) synchronous best-effort status
  lookup, (b) push-based subscription to status changes with unsubscribe, (c)
  browser-opening". The lookup reads what the dispatcher has cached for a repository, a
  ref and a branch. A subscription is identified by the number of the disposable that
  \<open>subscribeToCommitStatus\<close> returns; \<open>subscriptions\<close> lists the subscriptions of this
  popover that have not been disposed, and a status is pushed only to those. The callback
  handed to \<open>subscribeToCommitStatus\<close> is always \<open>onStatus\<close>, so it is not an argument here:
  \<open>deliver\<close> below calls it.
\<close>

record Dispatcher =
  cachedStatus :: "GitHubRepository \<Rightarrow> string \<Rightarrow> string \<Rightarrow> ICombinedRefCheck option"
  subscriptions :: "nat list"
  nextDisposable :: nat

text \<open>Modelled from the spec: the "synchronous best-effort status lookup" of the
  dispatcher, \<open>null\<close> when nothing is cached.\<close>

definition tryGetCommitStatus ::
  "Dispatcher \<Rightarrow> GitHubRepository \<Rightarrow> string \<Rightarrow> string \<Rightarrow> ICombinedRefCheck option" where
  "tryGetCommitStatus d repo ref branch = cachedStatus d repo ref branch"

text \<open>Modelled from the spec: the "push-based subscription to status changes" of the
  dispatcher. It registers a new subscription and returns its disposable.\<close>

definition subscribeToCommitStatus ::
  "Dispatcher \<Rightarrow> GitHubRepository \<Rightarrow> string \<Rightarrow> string \<Rightarrow> nat \<times> Dispatcher" where
  "subscribeToCommitStatus d repo ref branch =
     (nextDisposable d,
      d\<lparr>subscriptions := subscriptions d @ [nextDisposable d],
        nextDisposable := Suc (nextDisposable d)\<rparr>)"

text \<open>Modelled from the spec: "with unsubscribe". Disposing of a disposable removes its
  subscription.\<close>

definition dispose :: "nat \<Rightarrow> Dispatcher \<Rightarrow> Dispatcher" where
  "dispose i d = d\<lparr>subscriptions := removeAll i (subscriptions d)\<rparr>"

section \<open>The popover\<close>

record ICICheckRunPopoverProps =
  repository :: GitHubRepository
  branchName :: string
  prNumber :: nat

record ICICheckRunPopoverState =
  checkRuns :: "IRefCheck list"
  checkRunSummary :: string
  loadingActionLogs :: bool
  loadingActionWorkflows :: bool

text \<open>What the popover does to its collaborators, in the order it does it: the calls on
  the dispatcher, the disposal of a subscription, and React's \<open>setState\<close>.\<close>

datatype effect =
    TryGetCommitStatus GitHubRepository string string
  | SubscribeToCommitStatus GitHubRepository string string
  | Dispose nat
  | SetState ICICheckRunPopoverState
  | OpenInBrowser string

text \<open>The component instance: its props (the dispatcher apart, which is mutable), its
  state, its private subscription handle, the dispatcher, and the effects so far.\<close>

record CICheckRunPopover =
  props :: ICICheckRunPopoverProps
  state :: ICICheckRunPopoverState
  statusSubscription :: "nat option"
  dispatcher :: Dispatcher
  effects :: "effect list"

definition constructor :: "ICICheckRunPopoverProps \<Rightarrow> Dispatcher \<Rightarrow> CICheckRunPopover" where
  "constructor ps d =
     \<lparr>props = ps,
      state = \<lparr>checkRuns = [], checkRunSummary = [],
                loadingActionLogs = True, loadingActionWorkflows = True\<rparr>,
      statusSubscription = None,
      dispatcher = d,
      effects = []\<rparr>"

definition getCommitRef :: "nat \<Rightarrow> string" where
  "getCommitRef n = ''refs/pull/'' @ string_of_nat n @ ''/head''"

text \<open>\<open>Map.prototype.set\<close> on a map kept in insertion order: an existing key keeps its
  place.\<close>

fun map_set :: "(string \<times> nat) list \<Rightarrow> string \<Rightarrow> nat \<Rightarrow> (string \<times> nat) list" where
  "map_set [] k v = [(k, v)]"
| "map_set ((k', v') # m) k v = (if k' = k then (k, v) # m else (k', v') # map_set m k v)"

text \<open>The first loop of \<open>getCombinedCheckSummary\<close>, over the checks.\<close>

fun count_conclusions ::
  "externals \<Rightarrow> (string \<times> nat) list \<Rightarrow> IRefCheck list \<Rightarrow> (string \<times> nat) list" where
  "count_conclusions ext conclusionMap [] = conclusionMap"
| "count_conclusions ext conclusionMap (check # rest) =
     (let adj = toLocaleLowerCase ext (getCheckRunConclusionAdjective ext (conclusion check))
      in count_conclusions ext
           (map_set conclusionMap adj
              ((case map_of conclusionMap adj of None \<Rightarrow> 0 | Some n \<Rightarrow> n) + 1))
           rest)"

text \<open>\<open>summaryArray[0]\<close> of an empty array is \<open>undefined\<close>, and reading its \<open>count\<close> throws.\<close>

definition getCombinedCheckSummary ::
  "externals \<Rightarrow> ICombinedRefCheck option \<Rightarrow> js_error + string" where
  "getCombinedCheckSummary ext combinedCheck =
     (case combinedCheck of
        None \<Rightarrow> Inr []
      | Some cc \<Rightarrow>
          if length (checks cc) = 0 then Inr []
          else
            let conclusionMap = count_conclusions ext [] (checks cc);
                summaryArray = map (\<lambda>(concl, cnt). (cnt, concl)) conclusionMap
            in if 1 < length summaryArray then
                 let outp = map (\<lambda>(cnt, concl). string_of_nat cnt @ '' '' @ concl) summaryArray
                 in Inr (js_join '', '' (slice_init outp) @ '', and ''
                         @ js_join '','' (slice_last outp) @ '' checks'')
               else
                 (case summaryArray of
                    [] \<Rightarrow> Inl TypeError
                  | (cnt, concl) # _ \<Rightarrow>
                      let pluralize = (if 1 < cnt then ''checks'' else ''check'')
                      in Inr (string_of_nat cnt @ '' '' @ concl @ '' '' @ pluralize)))"

definition setState :: "ICICheckRunPopoverState \<Rightarrow> CICheckRunPopover \<Rightarrow> CICheckRunPopover" where
  "setState st c = c\<lparr>state := st, effects := effects c @ [SetState st]\<rparr>"

text \<open>\<open>onStatus\<close> is an \<open>async\<close> function without an \<open>await\<close>: its body runs at once, and an
  exception in it would reject the promise it returns (which no caller reads) before
  \<open>setState\<close> is reached.\<close>

definition onStatus ::
  "externals \<Rightarrow> ICombinedRefCheck option \<Rightarrow> CICheckRunPopover \<Rightarrow> CICheckRunPopover" where
  "onStatus ext check c =
     (let runs = (case check of Some cc \<Rightarrow> checks cc | None \<Rightarrow> [])
      in case getCombinedCheckSummary ext check of
           Inl e \<Rightarrow> c
         | Inr s \<Rightarrow>
             setState \<lparr>checkRuns = runs,
                       checkRunSummary = s,
                       loadingActionLogs = (check = None),
                       loadingActionWorkflows = (check = None)\<rparr> c)"

definition unsubscribe :: "CICheckRunPopover \<Rightarrow> CICheckRunPopover" where
  "unsubscribe c =
     (case statusSubscription c of
        Some i \<Rightarrow>
          c\<lparr>dispatcher := dispose i (dispatcher c),
            effects := effects c @ [Dispose i],
            statusSubscription := None\<rparr>
      | None \<Rightarrow> c)"

definition subscribe :: "CICheckRunPopover \<Rightarrow> CICheckRunPopover" where
  "subscribe c =
     (let c1 = unsubscribe c;
          (i, d) = subscribeToCommitStatus (dispatcher c1) (repository (props c1))
                     (getCommitRef (prNumber (props c1))) (branchName (props c1))
      in c1\<lparr>dispatcher := d,
             effects := effects c1 @
               [SubscribeToCommitStatus (repository (props c1))
                  (getCommitRef (prNumber (props c1))) (branchName (props c1))],
             statusSubscription := Some i\<rparr>)"

definition componentDidMount :: "externals \<Rightarrow> CICheckRunPopover \<Rightarrow> CICheckRunPopover" where
  "componentDidMount ext c =
     (let combinedCheck =
            tryGetCommitStatus (dispatcher c) (repository (props c))
              (getCommitRef (prNumber (props c))) (branchName (props c));
          c1 = c\<lparr>effects := effects c @
                 [TryGetCommitStatus (repository (props c))
                    (getCommitRef (prNumber (props c))) (branchName (props c))]\<rparr>;
          c2 = onStatus ext combinedCheck c1
      in subscribe c2)"

definition componentWillUnmount :: "CICheckRunPopover \<Rightarrow> CICheckRunPopover" where
  "componentWillUnmount c = unsubscribe c"

text \<open>Modelled from the spec: the push of a status through subscription \<open>i\<close> ("push-based
  subscription to status changes with unsubscribe"). The dispatcher calls the callback
  it was given, \<open>onStatus\<close>, only while the subscription has not been disposed.\<close>

definition deliver ::
  "externals \<Rightarrow> nat \<Rightarrow> ICombinedRefCheck option \<Rightarrow> CICheckRunPopover \<Rightarrow> CICheckRunPopover" where
  "deliver ext i check c =
     (if i \<in> set (subscriptions (dispatcher c)) then onStatus ext check c else c)"

text \<open>A sequence of pushes, each through some subscription number.\<close>

definition deliver_all ::
  "externals \<Rightarrow> (nat \<times> ICombinedRefCheck option) list \<Rightarrow> CICheckRunPopover \<Rightarrow> CICheckRunPopover" where
  "deliver_all ext pushes c = fold (\<lambda>(i, check). deliver ext i check) pushes c"

text \<open>In a template literal \<open>null\<close> prints as \<open>null\<close>.\<close>

definition onViewCheckDetails :: "IRefCheck \<Rightarrow> CICheckRunPopover \<Rightarrow> CICheckRunPopover" where
  "onViewCheckDetails run c =
     (if htmlUrl run = None \<and> htmlURL (repository (props c)) = None then c
      else
        let url =
              (case htmlUrl run of
                 Some u \<Rightarrow> u
               | None \<Rightarrow>
                   (case htmlURL (repository (props c)) of Some r \<Rightarrow> r | None \<Rightarrow> ''null'')
                   @ ''/pull/'' @ string_of_nat (prNumber (props c)))
        in c\<lparr>effects := effects c @ [OpenInBrowser url]\<rparr>)"



section \<open>The life of the popover\<close>

text \<open>
  The states the component can be in: it is constructed with a dispatcher that holds no
  subscription of it yet, and from then on it is mounted, subscribes, is unmounted,
  receives a pushed status, or opens a check's details, in any order and any number of
  times.
\<close>

inductive reachable :: "externals \<Rightarrow> CICheckRunPopover \<Rightarrow> bool" for ext :: externals where
  constructed: "subscriptions d = [] \<Longrightarrow> reachable ext (constructor ps d)"
| mounted: "reachable ext c \<Longrightarrow> reachable ext (componentDidMount ext c)"
| subscribed: "reachable ext c \<Longrightarrow> reachable ext (subscribe c)"
| unmounted: "reachable ext c \<Longrightarrow> reachable ext (componentWillUnmount c)"
| pushed: "reachable ext c \<Longrightarrow> reachable ext (deliver ext i check c)"
| viewed: "reachable ext c \<Longrightarrow> reachable ext (onViewCheckDetails run c)"

text \<open>The subscriptions the dispatcher holds are exactly the one in the handle, if any.\<close>

definition handle_holds_all :: "CICheckRunPopover \<Rightarrow> bool" where
  "handle_holds_all c =
     (subscriptions (dispatcher c) =
        (case statusSubscription c of None \<Rightarrow> [] | Some i \<Rightarrow> [i]))"

section \<open>A sample of the imported functions\<close>

text \<open>An instance of the parameters, for evaluating the model on concrete inputs:
  adjectives in the style of the application, the adjective as the category, and
  lower-casing of the ASCII letters.\<close>

fun sample_adjective :: "APICheckConclusion option \<Rightarrow> string" where
  "sample_adjective None = ''In progress''"
| "sample_adjective (Some Success) = ''Successful''"
| "sample_adjective (Some Failure) = ''Failed''"
| "sample_adjective (Some Canceled) = ''Canceled''"
| "sample_adjective (Some ActionRequired) = ''Action required''"
| "sample_adjective (Some TimedOut) = ''Timed out''"
| "sample_adjective (Some (OtherConclusion s)) = s"

definition ascii_lower :: "string \<Rightarrow> string" where
  "ascii_lower s =
     map (\<lambda>ch. if 65 \<le> (of_char ch :: nat) \<and> (of_char ch :: nat) \<le> 90
                then char_of ((of_char ch :: nat) + 32) else ch) s"

definition sample_category :: "IRefCheck \<Rightarrow> string" where
  "sample_category run = sample_adjective (conclusion run)"

definition sample_externals :: externals where
  "sample_externals =
     \<lparr>getCheckRunConclusionAdjective = sample_adjective,
      checkCategory = sample_category,
      toLocaleLowerCase = ascii_lower\<rparr>"

text \<open>A check run with no url, no output and no workflow run; a repository, props and a
  dispatcher that has nothing cached and no subscription.\<close>

definition sample_run :: "string \<Rightarrow> APICheckConclusion option \<Rightarrow> IRefCheck" where
  "sample_run nm concl =
     \<lparr>run_name = nm, conclusion = concl, htmlUrl = None,
      output' = \<lparr>title = None, summary = Undefined, text' = None, type' = Default\<rparr>,
      actionsWorkflowRunId = None\<rparr>"

definition sample_props :: ICICheckRunPopoverProps where
  "sample_props =
     \<lparr>repository = \<lparr>htmlURL = Some ''https://github.com/desktop/desktop''\<rparr>,
      branchName = ''main'', prNumber = 42\<rparr>"

definition sample_dispatcher :: Dispatcher where
  "sample_dispatcher =
     \<lparr>cachedStatus = (\<lambda>repo ref branch. None), subscriptions = [], nextDisposable = 0\<rparr>"

section \<open>The summary the specification describes\<close>

text \<open>The "\<open>count adjective\<close>" items of the summary: one per distinct adjective, in the
  order of first occurrence, with the number of checks that have it.\<close>

definition adjectives :: "externals \<Rightarrow> IRefCheck list \<Rightarrow> string list" where
  "adjectives ext cs =
     map (\<lambda>check. toLocaleLowerCase ext (getCheckRunConclusionAdjective ext (conclusion check))) cs"

definition summary_items :: "string list \<Rightarrow> string list" where
  "summary_items adjs =
     map (\<lambda>a. string_of_nat (count_list adjs a) @ '' '' @ a) (first_occurrences adjs)"

section \<open>The geometry the specification describes\<close>

text \<open>
  The specification speaks of annular arcs that span a fraction interval of the full
  circle. \<open>point radius c turn\<close> is the point reached after the fraction \<open>turn\<close> of a full
  clockwise turn from twelve o'clock on the circle of that radius around \<open>(c, c)\<close>.
  \<open>annular_arc pt\<close> is the path of the ring sector between the positions \<open>a\<close> and \<open>b\<close>,
  where \<open>pt radius x\<close> gives the coordinates of position \<open>x\<close> on the circle of that radius:
  the outer arc forwards, a line inwards, the inner arc backwards, both arcs carrying the
  large-arc flag \<open>large\<close>.
\<close>

text \<open>Arithmetic without rounding: under it \<open>scale\<close> computes \<open>point\<close> (lemma \<open>scale_point\<close>).\<close>

definition exact_arithmetic :: arithmetic where
  "exact_arithmetic = \<lparr>fl = (\<lambda>x. x), Math_PI = pi, Math_cos = cos, Math_sin = sin\<rparr>"



text \<open>The sum of all counts, and the sum of the counts of the categories before position
  \<open>i\<close> in the map's iteration order.\<close>

definition counts_sum :: "(string \<times> real) list \<Rightarrow> real" where
  "counts_sum m = sum_list (map snd m)"

definition counted_before :: "(string \<times> real) list \<Rightarrow> nat \<Rightarrow> real" where
  "counted_before m i = sum_list (map snd (take i m))"


text \<open>The two path arrays the loop body builds, named for the proofs.\<close>

definition full_circle_d :: "real \<Rightarrow> real \<Rightarrow> real \<Rightarrow> tok list" where
  "full_circle_d outerRadius innerRadius cx =
     [S ''M'', N (Num cx), N (Num (cx - outerRadius)),
      S ''A'', N (Num outerRadius), N (Num outerRadius), N (Num 0), N (Num 1), N (Num 1),
      N (Num (cx - 1 / 100)), N (Num (cx - outerRadius)),
      S ''L'', N (Num (cx - 1 / 100)), N (Num (cx - innerRadius)),
      S ''A'', N (Num innerRadius), N (Num innerRadius), N (Num 0), N (Num 1), N (Num 0),
      N (Num cx), N (Num (cx - innerRadius))]"

definition arc_d ::
  "arithmetic \<Rightarrow> real \<Rightarrow> real \<Rightarrow> real \<Rightarrow> real \<Rightarrow> real \<Rightarrow> real \<Rightarrow> tok list" where
  "arc_d fp R r cx s c v =
     [S ''M''] @ scale fp c R cx s
     @ [S ''A'', N (Num R), N (Num R), N (Num 0),
        N (Num (if js_gt (js_div v s) (1 / 2) then 1 else 0)), N (Num 1)]
     @ scale fp (c + v) R cx s
     @ [S ''L''] @ scale fp (c + v) r cx s
     @ [S ''A'', N (Num r), N (Num r), N (Num 0),
        N (Num (if js_gt (js_div v s) (1 / 2) then 1 else 0)), N (Num 0)]
     @ scale fp c r cx s"

section \<open>Properties of the donut chart\<close>

lemma foldl_add_sum_list: "foldl (+) (a::real) xs = a + sum_list xs"
  by (induction xs arbitrary: a) simp_all

lemma donut_loop_Cons:
  "donut_loop fp R r cx s c ps ((nm, v) # rest) =
     (if v = 0 then donut_loop fp R r cx s c ps rest
      else if js_div v s = Num 1
        then donut_loop fp R r cx s c (ps @ [\<lparr>name = nm, path = full_circle_d R r cx\<rparr>]) rest
        else donut_loop fp R r cx s (c + v) (ps @ [\<lparr>name = nm, path = arc_d fp R r cx s c v\<rparr>]) rest)"
  by (simp add: Let_def full_circle_d_def arc_d_def)

declare donut_loop.simps(2) [simp del]



lemma js_div_one: "js_div v s = Num 1 \<longleftrightarrow> s \<noteq> 0 \<and> v = s"
  by (auto simp: js_div_def)



lemma donut_loop_zeros:
  "\<forall>v\<in>set (map snd rest). v = 0 \<Longrightarrow> donut_loop fp R r cx s c ps rest = ps"
  by (induction rest) (auto simp: donut_loop_Cons)

lemma nonneg_sum_zero:
  fixes xs :: "real list"
  assumes "\<forall>v\<in>set xs. 0 \<le> v" and "sum_list xs \<le> 0"
  shows "\<forall>v\<in>set xs. v = 0"
  using assms
proof (induction xs)
  case Nil
  show ?case by simp
next
  case (Cons x xs)
  have "0 \<le> sum_list xs" using Cons.prems(1) by (simp add: sum_list_nonneg)
  with Cons show ?case by auto
qed




lemma counted_before_Suc:
  "i < length m \<Longrightarrow> counted_before m (Suc i) = counted_before m i + snd (m ! i)"
  by (simp add: counted_before_def take_Suc_conv_app_nth)


lemma donutSVG_Cons:
  "m \<noteq> [] \<Longrightarrow> donutSVG fp m R r =
     Inr \<lparr>paths = donut_loop fp R r R (counts_sum m) 0 [] m,
          height = 2 * R, width = 2 * R, className = ''donut-chart''\<rparr>"
  by (cases m) (simp_all add: donutSVG_def counts_sum_def foldl_add_sum_list Let_def)




lemma loop_single:
  assumes "\<forall>v\<in>set (map snd rest). 0 \<le> v" and "(nm, s) \<in> set rest" and "0 < s"
    and "sum_list (map snd rest) = s"
  shows "donut_loop fp R r cx s c [] rest = [\<lparr>name = nm, path = full_circle_d R r cx\<rparr>]"
  using assms
proof (induction rest)
  case Nil
  then show ?case by simp
next
  case (Cons e rest)
  obtain nm' v' where e: "e = (nm', v')" by (cases e)
  have rest0: "\<forall>v\<in>set (map snd rest). 0 \<le> v" and v0: "0 \<le> v'"
    using Cons.prems(1) by (simp_all add: e)
  have sum0: "0 \<le> sum_list (map snd rest)"
    by (rule sum_list_nonneg) (use rest0 in auto)
  have total: "v' + sum_list (map snd rest) = s"
    using Cons.prems(4) by (simp add: e)
  show ?case
  proof (cases "v' = 0")
    case True
    then have "(nm, s) \<in> set rest" using Cons.prems(2,3) by (auto simp: e)
    moreover have "sum_list (map snd rest) = s" using total True by simp
    ultimately show ?thesis
      using Cons.IH [OF rest0 _ Cons.prems(3)] True by (simp add: e donut_loop_Cons)
  next
    case False
    have "(nm, s) \<notin> set rest"
    proof
      assume "(nm, s) \<in> set rest"
      then have "s \<in> set (map snd rest)" by force
      then have "s \<le> sum_list (map snd rest)"
        using rest0 by (intro member_le_sum_list) auto
      with total v0 False show False by simp
    qed
    with Cons.prems(2) have hd: "nm' = nm" "v' = s" by (auto simp: e)
    have "sum_list (map snd rest) \<le> 0" using total hd by simp
    with rest0 have z: "\<forall>v\<in>set (map snd rest). v = 0" by (rule nonneg_sum_zero)
    show ?thesis
      using hd Cons.prems(3)
      by (simp add: e donut_loop_Cons js_div_one donut_loop_zeros [OF z])
  qed
qed

text \<open>
  Claim C2. In a map of counts where one category's share \<open>v / sum\<close> is exactly 1,
  \<open>donutSVG\<close> takes the full-circle fallback for that category and emits nothing else:
  its only path moves to the top of the outer circle \<open>(cx, cy - outerRadius)\<close>, draws an
  outer arc with large-arc flag 1 (sweep 1) to the point \<open>x2 = cx - 0.01\<close> just left of the
  start, a line inwards, and an inner arc with large-arc flag 1 (sweep 0) back to
  \<open>(cx, cy - innerRadius)\<close>; here \<open>cx = cy = outerRadius\<close>.
\<close>

theorem donutSVG_full_circle:
  assumes "\<forall>v\<in>set (map snd m). 0 \<le> v" and "(nm, v) \<in> set m" and "v / counts_sum m = 1"
  shows "\<exists>res. donutSVG fp m outerRadius innerRadius = Inr res \<and>
     paths res =
       [\<lparr>name = nm,
         path =
           [S ''M'', N (Num outerRadius), N (Num (outerRadius - outerRadius)),
            S ''A'', N (Num outerRadius), N (Num outerRadius), N (Num 0), N (Num 1), N (Num 1),
            N (Num (outerRadius - 1 / 100)), N (Num (outerRadius - outerRadius)),
            S ''L'', N (Num (outerRadius - 1 / 100)), N (Num (outerRadius - innerRadius)),
            S ''A'', N (Num innerRadius), N (Num innerRadius), N (Num 0), N (Num 1), N (Num 0),
            N (Num outerRadius), N (Num (outerRadius - innerRadius))]\<rparr>]"
proof -
  have s0: "counts_sum m \<noteq> 0" and vs: "v = counts_sum m"
    using assms(3) by (auto simp: divide_eq_1_iff)
  have ne: "m \<noteq> []" using assms(2) by auto
  have "0 \<le> v" using assms(1,2) by force
  with s0 vs have pos: "0 < counts_sum m" by simp
  have "donut_loop fp outerRadius innerRadius outerRadius (counts_sum m) 0 [] m =
      [\<lparr>name = nm, path = full_circle_d outerRadius innerRadius outerRadius\<rparr>]"
    by (rule loop_single [OF assms(1) _ pos]) (use assms(2) vs in \<open>simp_all add: counts_sum_def\<close>)
  then show ?thesis
    by (simp add: donutSVG_Cons [OF ne] full_circle_d_def)
qed

theorem donutSVG_full_circle_witness:
  "\<exists>res. donutSVG exact_arithmetic [(''success'', 0), (''failure'', 3), (''skipped'', 0)] 15 9
          = Inr res \<and>
     paths res =
       [\<lparr>name = ''failure'',
         path =
           [S ''M'', N (Num 15), N (Num 0),
            S ''A'', N (Num 15), N (Num 15), N (Num 0), N (Num 1), N (Num 1),
            N (Num (15 - 1 / 100)), N (Num 0),
            S ''L'', N (Num (15 - 1 / 100)), N (Num 6),
            S ''A'', N (Num 9), N (Num 9), N (Num 0), N (Num 1), N (Num 0),
            N (Num 15), N (Num 6)]\<rparr>]"
  using donutSVG_full_circle
    [of "[(''success'', 0), (''failure'', 3), (''skipped'', 0)]" "''failure''" 3
      exact_arithmetic 15 9]
  by (simp add: counts_sum_def)




section \<open>Properties of the logs panel\<close>

text \<open>
  Claim C4, as amended. While \<open>loadingActionWorkflows\<close> is true, \<open>render\<close> returns the
  "Loading" text and nothing else. Otherwise the first child of the output is the
  placeholder "No additional information to display." exactly when the check run has no
  actions workflow run id, its output type is \<open>Default\<close>, its output text is null or blank
  after trimming, and its output summary is undefined, null or blank after trimming. When
  that condition fails, the first child is the meta output (with its heading and summary
  as \<open>renderMetaOutput\<close> chooses them) if the check run has no actions workflow run id, and
  nothing if it has one. The second child is the log output.
\<close>

theorem render_placeholder:
  "(ICICheckRunLogsProps.loadingActionWorkflows p \<longrightarrow>
      render ext p = Div ''no-logs-to-display'' (''Loading'' @ [CHR 0xE2, CHR 0x80, CHR 0xA6])) \<and>
   (\<not> ICICheckRunLogsProps.loadingActionWorkflows p \<longrightarrow>
      render ext p =
        LogsItem (actionsWorkflowRunId (checkRun p) \<noteq> None)
          (if actionsWorkflowRunId (checkRun p) = None \<and>
              type' (output' (checkRun p)) = Default \<and>
              (case text' (output' (checkRun p)) of None \<Rightarrow> True | Some t \<Rightarrow> trim t = []) \<and>
              (case summary (output' (checkRun p)) of
                 Undefined \<Rightarrow> True | Null \<Rightarrow> True | Present s \<Rightarrow> trim s = [])
           then Some (Div ''no-logs-to-display'' ''No additional information to display.'')
           else if actionsWorkflowRunId (checkRun p) \<noteq> None then None
           else Some (MetaOutput
                  (case title (output' (checkRun p)) of
                     None \<Rightarrow> None
                   | Some t \<Rightarrow>
                       if trim t \<noteq> [] \<and>
                          toLocaleLowerCase ext (trim t) \<noteq>
                            toLocaleLowerCase ext (trim (run_name (checkRun p)))
                       then Some t else None)
                  (case summary (output' (checkRun p)) of
                     Present s \<Rightarrow>
                       if trim s \<noteq> [] \<and> type' (output' (checkRun p)) = Actions
                       then Some (SandboxedMarkdown (trim s) (baseHref p)) else None
                   | _ \<Rightarrow> None)))
          (if actionsWorkflowRunId (checkRun p) \<noteq> None
           then Some (CICheckRunActionLogs (output' (checkRun p))
                        (ICICheckRunLogsProps.loadingActionLogs p))
           else if type' (output' (checkRun p)) = Actions then None
           else if (case summary (output' (checkRun p)) of
                      Present s \<Rightarrow> if trim s \<noteq> [] then s else [] | _ \<Rightarrow> [])
                   @ (case text' (output' (checkRun p)) of Some t \<Rightarrow> trim t | None \<Rightarrow> []) = []
           then None
           else Some (SandboxedMarkdown
                  ((case summary (output' (checkRun p)) of
                      Present s \<Rightarrow> if trim s \<noteq> [] then s else [] | _ \<Rightarrow> [])
                   @ (case text' (output' (checkRun p)) of Some t \<Rightarrow> trim t | None \<Rightarrow> []))
                  (baseHref p))))"
proof (intro conjI impI)
  assume "ICICheckRunLogsProps.loadingActionWorkflows p"
  then show "render ext p = Div ''no-logs-to-display'' (''Loading'' @ [CHR 0xE2, CHR 0x80, CHR 0xA6])"
    by (simp add: render_def renderLoadingLogs_def)
next
  assume n: "\<not> ICICheckRunLogsProps.loadingActionWorkflows p"
  define out where "out = output' (checkRun p)"
  show "render ext p =
        LogsItem (actionsWorkflowRunId (checkRun p) \<noteq> None)
          (if actionsWorkflowRunId (checkRun p) = None \<and>
              type' (output' (checkRun p)) = Default \<and>
              (case text' (output' (checkRun p)) of None \<Rightarrow> True | Some t \<Rightarrow> trim t = []) \<and>
              (case summary (output' (checkRun p)) of
                 Undefined \<Rightarrow> True | Null \<Rightarrow> True | Present s \<Rightarrow> trim s = [])
           then Some (Div ''no-logs-to-display'' ''No additional information to display.'')
           else if actionsWorkflowRunId (checkRun p) \<noteq> None then None
           else Some (MetaOutput
                  (case title (output' (checkRun p)) of
                     None \<Rightarrow> None
                   | Some t \<Rightarrow>
                       if trim t \<noteq> [] \<and>
                          toLocaleLowerCase ext (trim t) \<noteq>
                            toLocaleLowerCase ext (trim (run_name (checkRun p)))
                       then Some t else None)
                  (case summary (output' (checkRun p)) of
                     Present s \<Rightarrow>
                       if trim s \<noteq> [] \<and> type' (output' (checkRun p)) = Actions
                       then Some (SandboxedMarkdown (trim s) (baseHref p)) else None
                   | _ \<Rightarrow> None)))
          (if actionsWorkflowRunId (checkRun p) \<noteq> None
           then Some (CICheckRunActionLogs (output' (checkRun p))
                        (ICICheckRunLogsProps.loadingActionLogs p))
           else if type' (output' (checkRun p)) = Actions then None
           else if (case summary (output' (checkRun p)) of
                      Present s \<Rightarrow> if trim s \<noteq> [] then s else [] | _ \<Rightarrow> [])
                   @ (case text' (output' (checkRun p)) of Some t \<Rightarrow> trim t | None \<Rightarrow> []) = []
           then None
           else Some (SandboxedMarkdown
                  ((case summary (output' (checkRun p)) of
                      Present s \<Rightarrow> if trim s \<noteq> [] then s else [] | _ \<Rightarrow> [])
                   @ (case text' (output' (checkRun p)) of Some t \<Rightarrow> trim t | None \<Rightarrow> []))
                  (baseHref p)))"
    unfolding out_def [symmetric]
    using n
    by (cases "actionsWorkflowRunId (checkRun p)"; cases "type' out"; cases "text' out";
        cases "summary out"; cases "title out")
       (simp_all add: render_def Let_def hasActionsWorkflowLogs_def
          isNoAdditionalInfoToDisplay_def isNoOutputText_def renderEmptyLogOutput_def
          renderMetaOutput_def renderNonActionsLogOutput_def getNonActionsOutputMD_def
          out_def [symmetric])
qed


theorem render_placeholder_witness:
  "render sample_externals
     \<lparr>checkRun = (sample_run ''build'' (Some Success))
        \<lparr>output' := \<lparr>title = None, summary = Null,
                       text' = Some ([CHR 0x20, CHR 0xE2, CHR 0x80, CHR 0x83, CHR 0x0A]),
                       type' = Default\<rparr>\<rparr>,
      ICICheckRunLogsProps.loadingActionLogs = False,
      ICICheckRunLogsProps.loadingActionWorkflows = False, baseHref = None\<rparr>
   = LogsItem False (Some (Div ''no-logs-to-display'' ''No additional information to display.'')) None
   \<and>
   render sample_externals
     \<lparr>checkRun = (sample_run ''build'' (Some Failure))
        \<lparr>output' := \<lparr>title = Some ''Build failed'', summary = Present ''2 errors'',
                       text' = Some ''  '', type' = Default\<rparr>\<rparr>,
      ICICheckRunLogsProps.loadingActionLogs = False,
      ICICheckRunLogsProps.loadingActionWorkflows = False, baseHref = None\<rparr>
   = LogsItem False (Some (MetaOutput (Some ''Build failed'') None))
       (Some (SandboxedMarkdown ''2 errors'' None))
   \<and>
   render sample_externals
     \<lparr>checkRun = sample_run ''build'' None,
      ICICheckRunLogsProps.loadingActionLogs = True,
      ICICheckRunLogsProps.loadingActionWorkflows = True, baseHref = None\<rparr>
   = Div ''no-logs-to-display'' (''Loading'' @ [CHR 0xE2, CHR 0x80, CHR 0xA6])"
proof -
  have t1: "trim [CHR 0x20, CHR 0xE2, CHR 0x80, CHR 0x83, CHR 0x0A] = []"
    and t2: "trim ''  '' = []"
    and t3: "trim ''Build failed'' = ''Build failed''"
    and t4: "trim ''2 errors'' = ''2 errors''"
    and t5: "trim ''build'' = ''build''"
    by code_simp+
  have l1: "toLocaleLowerCase sample_externals ''Build failed'' = ''build failed''"
    and l2: "toLocaleLowerCase sample_externals ''build'' = ''build''"
    by code_simp+
  show ?thesis
    using
      render_placeholder [where ext = sample_externals and p =
        "\<lparr>checkRun = (sample_run ''build'' (Some Success))
          \<lparr>output' := \<lparr>title = None, summary = Null,
                         text' = Some ([CHR 0x20, CHR 0xE2, CHR 0x80, CHR 0x83, CHR 0x0A]),
                         type' = Default\<rparr>\<rparr>,
          ICICheckRunLogsProps.loadingActionLogs = False,
          ICICheckRunLogsProps.loadingActionWorkflows = False, baseHref = None\<rparr>"]
      render_placeholder [where ext = sample_externals and p =
        "\<lparr>checkRun = (sample_run ''build'' (Some Failure))
          \<lparr>output' := \<lparr>title = Some ''Build failed'', summary = Present ''2 errors'',
                         text' = Some ''  '', type' = Default\<rparr>\<rparr>,
          ICICheckRunLogsProps.loadingActionLogs = False,
          ICICheckRunLogsProps.loadingActionWorkflows = False, baseHref = None\<rparr>"]
      render_placeholder [where ext = sample_externals and p =
        "\<lparr>checkRun = sample_run ''build'' None,
          ICICheckRunLogsProps.loadingActionLogs = True,
          ICICheckRunLogsProps.loadingActionWorkflows = True, baseHref = None\<rparr>"]
    by (simp add: sample_run_def t1 t2 t3 t4 t5 l1 l2)
qed

text \<open>The claim as stated fails in two ways. A check run with no workflow run id, a
  \<open>Default\<close> output, no text and no summary, rendered while the action workflows are
  loading, shows the "Loading" text and not the placeholder. And a check run with an
  actions workflow run id, rendered after loading, does not meet the condition of the
  placeholder, yet no meta output is rendered in its place.\<close>

theorem render_placeholder_counterexample:
  "actionsWorkflowRunId (sample_run ''build'' (Some Success)) = None \<and>
   type' (output' (sample_run ''build'' (Some Success))) = Default \<and>
   text' (output' (sample_run ''build'' (Some Success))) = None \<and>
   summary (output' (sample_run ''build'' (Some Success))) = Undefined \<and>
   render sample_externals
     \<lparr>checkRun = sample_run ''build'' (Some Success),
      ICICheckRunLogsProps.loadingActionLogs = True,
      ICICheckRunLogsProps.loadingActionWorkflows = True, baseHref = None\<rparr>
   = Div ''no-logs-to-display'' (''Loading'' @ [CHR 0xE2, CHR 0x80, CHR 0xA6]) \<and>
   render sample_externals
     \<lparr>checkRun = (sample_run ''build'' (Some Success))\<lparr>actionsWorkflowRunId := Some 7\<rparr>,
      ICICheckRunLogsProps.loadingActionLogs = False,
      ICICheckRunLogsProps.loadingActionWorkflows = False, baseHref = None\<rparr>
   = LogsItem True None
       (Some (CICheckRunActionLogs
                \<lparr>title = None, summary = Undefined, text' = None, type' = Default\<rparr> False))"
  by (simp add: sample_run_def render_def renderLoadingLogs_def Let_def
      hasActionsWorkflowLogs_def isNoAdditionalInfoToDisplay_def isNoOutputText_def
      renderMetaOutput_def)

section \<open>Properties of the popover\<close>

lemma map_set_nonempty: "map_set m k v \<noteq> []"
  by (cases m) (auto split: if_splits)

lemma count_conclusions_nonempty:
  "cm \<noteq> [] \<or> cs \<noteq> [] \<Longrightarrow> count_conclusions ext cm cs \<noteq> []"
  by (induction cs arbitrary: cm) (simp_all add: Let_def map_set_nonempty)

lemma getCombinedCheckSummary_total: "\<exists>s. getCombinedCheckSummary ext check = Inr s"
proof (cases check)
  case None
  then show ?thesis by (simp add: getCombinedCheckSummary_def)
next
  case (Some cc)
  show ?thesis
  proof (cases "checks cc = []")
    case True
    with Some show ?thesis by (simp add: getCombinedCheckSummary_def)
  next
    case False
    then have "count_conclusions ext [] (checks cc) \<noteq> []"
      by (simp add: count_conclusions_nonempty)
    then obtain e es where "count_conclusions ext [] (checks cc) = e # es"
      by (cases "count_conclusions ext [] (checks cc)") auto
    with Some False show ?thesis
      by (cases e) (simp add: getCombinedCheckSummary_def Let_def)
  qed
qed

text \<open>
  Claim C5. \<open>onStatus\<close> with a combined check sets \<open>checkRuns\<close> to its list of checks and
  both loading flags to false; with \<open>null\<close> it sets \<open>checkRuns\<close> to the empty list and both
  flags to true. In both cases \<open>checkRunSummary\<close> is the summary computed from the value
  delivered (which is always computed: \<open>getCombinedCheckSummary\<close> does not fail). The
  constructor sets both flags to true.
\<close>

theorem onStatus_state:
  "(\<exists>s. getCombinedCheckSummary ext (Some cc) = Inr s \<and>
        state (onStatus ext (Some cc) c) =
          \<lparr>checkRuns = checks cc, checkRunSummary = s,
           loadingActionLogs = False, loadingActionWorkflows = False\<rparr>) \<and>
   (\<exists>s. getCombinedCheckSummary ext None = Inr s \<and>
        state (onStatus ext None c) =
          \<lparr>checkRuns = [], checkRunSummary = s,
           loadingActionLogs = True, loadingActionWorkflows = True\<rparr>) \<and>
   loadingActionLogs (state (constructor ps d)) \<and>
   loadingActionWorkflows (state (constructor ps d))"
proof -
  obtain s where s: "getCombinedCheckSummary ext (Some cc) = Inr s"
    using getCombinedCheckSummary_total by blast
  obtain s' where s': "getCombinedCheckSummary ext None = Inr s'"
    using getCombinedCheckSummary_total by blast
  show ?thesis
    by (simp add: s s' onStatus_def setState_def constructor_def Let_def)
qed

theorem onStatus_state_witness:
  "state (onStatus sample_externals
            (Some \<lparr>checks = [sample_run ''build'' (Some Success), sample_run ''lint'' (Some Failure)]\<rparr>)
            (constructor sample_props sample_dispatcher)) =
     \<lparr>checkRuns = [sample_run ''build'' (Some Success), sample_run ''lint'' (Some Failure)],
      checkRunSummary = ''1 successful, and 1 failed checks'',
      loadingActionLogs = False, loadingActionWorkflows = False\<rparr> \<and>
   state (onStatus sample_externals None
            (onStatus sample_externals
               (Some \<lparr>checks = [sample_run ''build'' (Some Success)]\<rparr>)
               (constructor sample_props sample_dispatcher))) =
     \<lparr>checkRuns = [], checkRunSummary = [],
      loadingActionLogs = True, loadingActionWorkflows = True\<rparr>"
proof -
  have e: "getCombinedCheckSummary sample_externals
      (Some \<lparr>checks = [sample_run ''build'' (Some Success), sample_run ''lint'' (Some Failure)]\<rparr>)
      = Inr ''1 successful, and 1 failed checks''"
    by code_simp
  have n: "getCombinedCheckSummary sample_externals None = Inr []"
    by (simp add: getCombinedCheckSummary_def)
  show ?thesis
    using
      onStatus_state [where ext = sample_externals
        and cc = "\<lparr>checks = [sample_run ''build'' (Some Success), sample_run ''lint'' (Some Failure)]\<rparr>"
        and c = "constructor sample_props sample_dispatcher"]
      onStatus_state [where ext = sample_externals
        and c = "onStatus sample_externals
               (Some \<lparr>checks = [sample_run ''build'' (Some Success)]\<rparr>)
               (constructor sample_props sample_dispatcher)"]
    by (simp add: e n)
qed

text \<open>
  Claim C10. \<open>onViewCheckDetails\<close> opens the check run's \<open>htmlUrl\<close> when it has one;
  otherwise it opens the repository's \<open>htmlURL\<close> followed by \<open>/pull/\<close> and the pull request
  number, when the repository has one; otherwise it does nothing. Nothing is opened
  exactly when both urls are null.
\<close>

theorem onViewCheckDetails_opens:
  "onViewCheckDetails run c =
     c\<lparr>effects := effects c @
         (case htmlUrl run of
            Some u \<Rightarrow> [OpenInBrowser u]
          | None \<Rightarrow>
              (case htmlURL (repository (props c)) of
                 Some r \<Rightarrow> [OpenInBrowser (r @ ''/pull/'' @ string_of_nat (prNumber (props c)))]
               | None \<Rightarrow> []))\<rparr> \<and>
   (effects (onViewCheckDetails run c) = effects c) =
     (htmlUrl run = None \<and> htmlURL (repository (props c)) = None)"
  by (simp add: onViewCheckDetails_def split: option.splits)

theorem onViewCheckDetails_opens_witness:
  "effects (onViewCheckDetails (sample_run ''build'' None)
              (constructor sample_props sample_dispatcher)) =
     [OpenInBrowser ''https://github.com/desktop/desktop/pull/42''] \<and>
   effects (onViewCheckDetails
              ((sample_run ''build'' None)\<lparr>htmlUrl := Some ''https://ci.example/build/7''\<rparr>)
              (constructor sample_props sample_dispatcher)) =
     [OpenInBrowser ''https://ci.example/build/7''] \<and>
   effects (onViewCheckDetails (sample_run ''build'' None)
              (constructor (sample_props\<lparr>repository := \<lparr>htmlURL = None\<rparr>\<rparr>) sample_dispatcher)) = []"
  using
    onViewCheckDetails_opens [of "sample_run ''build'' None"
      "constructor sample_props sample_dispatcher"]
    onViewCheckDetails_opens
      [of "(sample_run ''build'' None)\<lparr>htmlUrl := Some ''https://ci.example/build/7''\<rparr>"
        "constructor sample_props sample_dispatcher"]
    onViewCheckDetails_opens [of "sample_run ''build'' None"
      "constructor (sample_props\<lparr>repository := \<lparr>htmlURL = None\<rparr>\<rparr>) sample_dispatcher"]
  by (simp add: sample_run_def sample_props_def constructor_def string_of_nat.simps)

text \<open>
  Claim C8. \<open>componentDidMount\<close> first calls \<open>tryGetCommitStatus\<close> for the ref
  \<open>refs/pull/<prNumber>/head\<close>, then sets the state through \<open>onStatus\<close> on what the lookup
  returned, and only then (after disposing of a subscription left in the handle, if any)
  calls \<open>subscribeToCommitStatus\<close> for the same ref and stores the new subscription.
\<close>

theorem componentDidMount_order:
  "effects (componentDidMount ext c) =
     effects c
     @ [TryGetCommitStatus (repository (props c))
          (''refs/pull/'' @ string_of_nat (prNumber (props c)) @ ''/head'') (branchName (props c)),
        SetState (state (componentDidMount ext c))]
     @ (case statusSubscription c of None \<Rightarrow> [] | Some i \<Rightarrow> [Dispose i])
     @ [SubscribeToCommitStatus (repository (props c))
          (''refs/pull/'' @ string_of_nat (prNumber (props c)) @ ''/head'') (branchName (props c))] \<and>
   state (componentDidMount ext c) =
     state (onStatus ext
              (tryGetCommitStatus (dispatcher c) (repository (props c))
                 (''refs/pull/'' @ string_of_nat (prNumber (props c)) @ ''/head'')
                 (branchName (props c)))
              c) \<and>
   statusSubscription (componentDidMount ext c) = Some (nextDisposable (dispatcher c))"
proof -
  obtain s where s: "getCombinedCheckSummary ext
      (tryGetCommitStatus (dispatcher c) (repository (props c))
         (getCommitRef (prNumber (props c))) (branchName (props c))) = Inr s"
    using getCombinedCheckSummary_total by blast
  show ?thesis
    using s
    by (simp add: componentDidMount_def onStatus_def setState_def subscribe_def unsubscribe_def
        subscribeToCommitStatus_def dispose_def Let_def getCommitRef_def split: option.splits)
qed

theorem componentDidMount_order_witness:
  "effects (componentDidMount sample_externals (constructor sample_props sample_dispatcher)) =
     [TryGetCommitStatus \<lparr>htmlURL = Some ''https://github.com/desktop/desktop''\<rparr>
        ''refs/pull/42/head'' ''main'',
      SetState \<lparr>checkRuns = [], checkRunSummary = [],
                loadingActionLogs = True, loadingActionWorkflows = True\<rparr>,
      SubscribeToCommitStatus \<lparr>htmlURL = Some ''https://github.com/desktop/desktop''\<rparr>
        ''refs/pull/42/head'' ''main''] \<and>
   statusSubscription (componentDidMount sample_externals
     (constructor sample_props sample_dispatcher)) = Some 0"
  using componentDidMount_order [of sample_externals "constructor sample_props sample_dispatcher"]
  by (simp add: constructor_def sample_props_def sample_dispatcher_def tryGetCommitStatus_def
      onStatus_def getCombinedCheckSummary_def setState_def string_of_nat.simps)

lemma onStatus_frame:
  "dispatcher (onStatus ext check c) = dispatcher c"
  "statusSubscription (onStatus ext check c) = statusSubscription c"
  "props (onStatus ext check c) = props c"
  by (simp_all add: onStatus_def setState_def Let_def split: sum.splits)

lemma unsubscribe_handle: "statusSubscription (unsubscribe c) = None"
  by (simp add: unsubscribe_def split: option.splits)

lemma unsubscribe_holds:
  "handle_holds_all c \<Longrightarrow> subscriptions (dispatcher (unsubscribe c)) = []"
  by (simp add: handle_holds_all_def unsubscribe_def dispose_def split: option.splits)

lemma subscribe_holds: "handle_holds_all c \<Longrightarrow> handle_holds_all (subscribe c)"
  using unsubscribe_holds [of c]
  by (simp add: handle_holds_all_def subscribe_def subscribeToCommitStatus_def Let_def)

lemma reachable_holds: "reachable ext c \<Longrightarrow> handle_holds_all c"
proof (induction rule: reachable.induct)
  case (constructed d ps)
  then show ?case by (simp add: handle_holds_all_def constructor_def)
next
  case (mounted c)
  have "handle_holds_all
      (onStatus ext
         (tryGetCommitStatus (dispatcher c) (repository (props c))
            (getCommitRef (prNumber (props c))) (branchName (props c)))
         (c\<lparr>effects := effects c @
              [TryGetCommitStatus (repository (props c))
                 (getCommitRef (prNumber (props c))) (branchName (props c))]\<rparr>))"
    using mounted.IH by (simp add: handle_holds_all_def onStatus_frame)
  then show ?case
    by (simp add: componentDidMount_def Let_def subscribe_holds)
next
  case (subscribed c)
  then show ?case by (simp add: subscribe_holds)
next
  case (unmounted c)
  then show ?case
    using unsubscribe_holds [of c]
    by (simp add: componentWillUnmount_def handle_holds_all_def unsubscribe_handle)
next
  case (pushed c i check)
  then show ?case by (simp add: deliver_def handle_holds_all_def onStatus_frame)
next
  case (viewed c run)
  then show ?case by (simp add: onViewCheckDetails_def handle_holds_all_def Let_def)
qed

text \<open>
  Claim C7. In every reachable state the dispatcher holds at most one subscription of
  the popover, the one in the handle. \<open>unsubscribe\<close> leaves none and clears the handle;
  \<open>subscribe\<close> disposes of the subscription in the handle, if any, before it calls
  \<open>subscribeToCommitStatus\<close>, and leaves exactly the new subscription, stored in the
  handle.
\<close>

theorem single_subscription:
  assumes "reachable ext c"
  shows "length (subscriptions (dispatcher c)) \<le> 1 \<and>
         subscriptions (dispatcher c) =
           (case statusSubscription c of None \<Rightarrow> [] | Some i \<Rightarrow> [i]) \<and>
         subscriptions (dispatcher (unsubscribe c)) = [] \<and>
         statusSubscription (unsubscribe c) = None \<and>
         subscriptions (dispatcher (subscribe c)) = [nextDisposable (dispatcher c)] \<and>
         statusSubscription (subscribe c) = Some (nextDisposable (dispatcher c)) \<and>
         effects (subscribe c) =
           effects c @ (case statusSubscription c of None \<Rightarrow> [] | Some i \<Rightarrow> [Dispose i])
           @ [SubscribeToCommitStatus (repository (props c))
                (getCommitRef (prNumber (props c))) (branchName (props c))]"
proof -
  have h: "handle_holds_all c" using assms by (rule reachable_holds)
  have u: "subscriptions (dispatcher (unsubscribe c)) = []" using h by (rule unsubscribe_holds)
  have n: "nextDisposable (dispatcher (unsubscribe c)) = nextDisposable (dispatcher c)"
    by (simp add: unsubscribe_def dispose_def split: option.splits)
  have e: "effects (unsubscribe c) =
      effects c @ (case statusSubscription c of None \<Rightarrow> [] | Some i \<Rightarrow> [Dispose i])"
    and p: "props (unsubscribe c) = props c"
    by (simp_all add: unsubscribe_def split: option.splits)
  show ?thesis
    using h u n e p
    by (simp add: handle_holds_all_def unsubscribe_handle subscribe_def
        subscribeToCommitStatus_def Let_def split: option.splits)
qed

lemma sample_mounted_reachable:
  "reachable sample_externals
     (componentDidMount sample_externals (constructor sample_props sample_dispatcher))"
  by (intro reachable.mounted reachable.constructed) (simp add: sample_dispatcher_def)

lemma sample_mounted:
  "componentDidMount sample_externals (constructor sample_props sample_dispatcher) =
     \<lparr>props = sample_props,
      state = \<lparr>checkRuns = [], checkRunSummary = [],
                loadingActionLogs = True, loadingActionWorkflows = True\<rparr>,
      statusSubscription = Some 0,
      dispatcher = sample_dispatcher\<lparr>subscriptions := [0], nextDisposable := Suc 0\<rparr>,
      effects =
        [TryGetCommitStatus (repository sample_props) (getCommitRef 42) ''main'',
         SetState \<lparr>checkRuns = [], checkRunSummary = [],
                   loadingActionLogs = True, loadingActionWorkflows = True\<rparr>,
         SubscribeToCommitStatus (repository sample_props) (getCommitRef 42) ''main'']\<rparr>"
  by (simp add: componentDidMount_def constructor_def tryGetCommitStatus_def onStatus_def
      getCombinedCheckSummary_def setState_def subscribe_def unsubscribe_def
      subscribeToCommitStatus_def sample_dispatcher_def sample_props_def Let_def)

theorem single_subscription_witness:
  "subscriptions (dispatcher
     (subscribe (componentDidMount sample_externals (constructor sample_props sample_dispatcher))))
     = [1] \<and>
   statusSubscription
     (subscribe (componentDidMount sample_externals (constructor sample_props sample_dispatcher)))
     = Some 1 \<and>
   effects
     (subscribe (componentDidMount sample_externals (constructor sample_props sample_dispatcher)))
     = effects (componentDidMount sample_externals (constructor sample_props sample_dispatcher))
       @ [Dispose 0,
          SubscribeToCommitStatus (repository sample_props) (getCommitRef 42) ''main'']"
  using single_subscription [OF sample_mounted_reachable]
  by (simp add: sample_mounted) (simp add: sample_props_def)

lemma deliver_all_no_subscription:
  "subscriptions (dispatcher c) = [] \<Longrightarrow> deliver_all ext pushes c = c"
  by (induction pushes) (auto simp: deliver_all_def deliver_def)

text \<open>
  Claim C6. \<open>componentWillUnmount\<close> disposes of the subscription in the handle, if there is
  one, and clears the handle. After it, in a reachable state, the dispatcher holds no
  subscription of the popover, so no sequence of pushes changes the component.
\<close>

theorem unmount_unsubscribes:
  assumes "reachable ext c"
  shows "statusSubscription (componentWillUnmount c) = None \<and>
         subscriptions (dispatcher (componentWillUnmount c)) = [] \<and>
         effects (componentWillUnmount c) =
           effects c @ (case statusSubscription c of None \<Rightarrow> [] | Some i \<Rightarrow> [Dispose i]) \<and>
         state (componentWillUnmount c) = state c \<and>
         deliver_all ext pushes (componentWillUnmount c) = componentWillUnmount c"
proof -
  have h: "handle_holds_all c" using assms by (rule reachable_holds)
  have u: "subscriptions (dispatcher (unsubscribe c)) = []" using h by (rule unsubscribe_holds)
  show ?thesis
    using u deliver_all_no_subscription [OF u]
    by (simp add: componentWillUnmount_def unsubscribe_handle)
       (simp add: unsubscribe_def split: option.splits)
qed

theorem unmount_unsubscribes_witness:
  "statusSubscription
     (componentWillUnmount
        (componentDidMount sample_externals (constructor sample_props sample_dispatcher))) = None \<and>
   subscriptions (dispatcher
     (componentWillUnmount
        (componentDidMount sample_externals (constructor sample_props sample_dispatcher)))) = [] \<and>
   deliver_all sample_externals [(0, Some \<lparr>checks = [sample_run ''build'' (Some Success)]\<rparr>)]
     (componentWillUnmount
        (componentDidMount sample_externals (constructor sample_props sample_dispatcher)))
   = componentWillUnmount
        (componentDidMount sample_externals (constructor sample_props sample_dispatcher)) \<and>
   checkRuns (state
     (deliver_all sample_externals [(0, Some \<lparr>checks = [sample_run ''build'' (Some Success)]\<rparr>)]
        (componentDidMount sample_externals (constructor sample_props sample_dispatcher))))
   = [sample_run ''build'' (Some Success)]"
proof -
  have "checkRuns (state
     (deliver_all sample_externals [(0, Some \<lparr>checks = [sample_run ''build'' (Some Success)]\<rparr>)]
        (componentDidMount sample_externals (constructor sample_props sample_dispatcher))))
   = [sample_run ''build'' (Some Success)]"
    using getCombinedCheckSummary_total
      [of sample_externals "Some \<lparr>checks = [sample_run ''build'' (Some Success)]\<rparr>"]
    by (auto simp: sample_mounted deliver_all_def deliver_def onStatus_def setState_def)
  then show ?thesis
    using unmount_unsubscribes [OF sample_mounted_reachable,
        of "[(0, Some \<lparr>checks = [sample_run ''build'' (Some Success)]\<rparr>)]"]
    by simp
qed

subsection \<open>The summary line\<close>

lemma map_set_absent: "k \<notin> fst ` set m \<Longrightarrow> map_set m k v = m @ [(k, v)]"
  by (induction m) auto

lemma bump_absent:
  "a \<notin> fst ` set cm \<Longrightarrow>
     map_set cm a ((case map_of cm a of None \<Rightarrow> 0 | Some n \<Rightarrow> n) + 1) = cm @ [(a, 1)]"
  by (simp add: map_set_absent map_of_eq_None_iff [THEN iffD2])

lemma bump_present:
  "distinct (map fst cm) \<Longrightarrow> a \<in> fst ` set cm \<Longrightarrow>
     map_set cm a ((case map_of cm a of None \<Rightarrow> 0 | Some n \<Rightarrow> n) + 1) =
       map (\<lambda>(k, n). (k, if k = a then n + 1 else n)) cm"
proof (induction cm)
  case Nil
  then show ?case by simp
next
  case (Cons e cm)
  obtain k0 n0 where e: "e = (k0, n0)" by (cases e)
  show ?case
  proof (cases "k0 = a")
    case True
    then have "a \<notin> fst ` set cm" using Cons.prems(1) by (simp add: e)
    then have "map (\<lambda>(k, n). (k, if k = a then n + 1 else n)) cm = cm"
      by (intro map_idI) (auto simp: image_iff)
    with True show ?thesis by (simp add: e)
  next
    case False
    then have "a \<in> fst ` set cm" using Cons.prems(2) by (auto simp: e)
    with Cons.IH Cons.prems(1) False show ?thesis by (simp add: e)
  qed
qed

lemma count_conclusions_tally:
  assumes "distinct (map fst cm)"
  shows "count_conclusions ext cm cs =
     map (\<lambda>(k, n). (k, n + count_list (adjectives ext cs) k)) cm
     @ map (\<lambda>a. (a, count_list (adjectives ext cs) a))
         (filter (\<lambda>a. a \<notin> fst ` set cm) (first_occurrences (adjectives ext cs)))"
  using assms
proof (induction cs arbitrary: cm)
  case Nil
  then show ?case by (simp add: adjectives_def)
next
  case (Cons check cs)
  define a where "a = toLocaleLowerCase ext (getCheckRunConclusionAdjective ext (conclusion check))"
  define A where "A = adjectives ext cs"
  have adjs: "adjectives ext (check # cs) = a # A"
    by (simp add: adjectives_def a_def A_def)
  define cm' where "cm' = map_set cm a ((case map_of cm a of None \<Rightarrow> 0 | Some n \<Rightarrow> n) + 1)"
  have step: "count_conclusions ext cm (check # cs) = count_conclusions ext cm' cs"
    by (simp add: Let_def cm'_def a_def)
  show ?case
  proof (cases "a \<in> fst ` set cm")
    case True
    have cm': "cm' = map (\<lambda>(k, n). (k, if k = a then n + 1 else n)) cm"
      unfolding cm'_def by (rule bump_present [OF Cons.prems True])
    have keys: "map fst cm' = map fst cm"
      by (simp add: cm' case_prod_unfold comp_def)
    then have keys': "fst ` set cm' = fst ` set cm"
      by (metis list.set_map)
    have d: "distinct (map fst cm')" using Cons.prems keys by simp
    have 1: "map (\<lambda>(k, n). (k, n + count_list A k)) cm' =
             map (\<lambda>(k, n). (k, n + count_list (a # A) k)) cm"
      by (simp add: cm' case_prod_unfold comp_def)
    have 2: "filter (\<lambda>b. b \<notin> fst ` set cm) (first_occurrences (a # A)) =
             filter (\<lambda>b. b \<notin> fst ` set cm) (first_occurrences A)"
      using True by (auto intro: filter_cong)
    have 3: "map (\<lambda>b. (b, count_list (a # A) b)) (filter (\<lambda>b. b \<notin> fst ` set cm) (first_occurrences A)) =
             map (\<lambda>b. (b, count_list A b)) (filter (\<lambda>b. b \<notin> fst ` set cm) (first_occurrences A))"
      using True by (auto intro!: map_cong)
    show ?thesis
      unfolding step adjs
      by (simp only: Cons.IH [OF d] keys' 1 2 3 A_def [symmetric])
  next
    case False
    have cm': "cm' = cm @ [(a, 1)]"
      unfolding cm'_def by (rule bump_absent [OF False])
    have d: "distinct (map fst cm')" using Cons.prems False by (simp add: cm')
    have 1: "map (\<lambda>(k, n). (k, n + count_list A k)) cm =
             map (\<lambda>(k, n). (k, n + count_list (a # A) k)) cm"
      using False by (auto intro!: map_cong simp: image_iff)
    have 2: "filter (\<lambda>b. b \<notin> fst ` set cm') (first_occurrences A) =
             filter (\<lambda>b. b \<notin> fst ` set cm) (filter (\<lambda>b. b \<noteq> a) (first_occurrences A))"
      by (auto simp: cm' intro: filter_cong)
    have 3: "map (\<lambda>b. (b, count_list (a # A) b))
               (filter (\<lambda>b. b \<notin> fst ` set cm) (filter (\<lambda>b. b \<noteq> a) (first_occurrences A))) =
             map (\<lambda>b. (b, count_list A b))
               (filter (\<lambda>b. b \<notin> fst ` set cm) (filter (\<lambda>b. b \<noteq> a) (first_occurrences A)))"
      by (auto intro!: map_cong)
    have lhs: "count_conclusions ext cm' cs =
        map (\<lambda>(k, n). (k, n + count_list A k)) cm
        @ (a, 1 + count_list A a)
        # map (\<lambda>b. (b, count_list A b))
            (filter (\<lambda>b. b \<notin> fst ` set cm) (filter (\<lambda>b. b \<noteq> a) (first_occurrences A)))"
      unfolding Cons.IH [OF d] A_def [symmetric] 2 by (simp add: cm')
    have rhs: "map (\<lambda>(k, n). (k, n + count_list (a # A) k)) cm
        @ map (\<lambda>b. (b, count_list (a # A) b))
            (filter (\<lambda>b. b \<notin> fst ` set cm) (first_occurrences (a # A))) =
        map (\<lambda>(k, n). (k, n + count_list A k)) cm
        @ (a, 1 + count_list A a)
        # map (\<lambda>b. (b, count_list A b))
            (filter (\<lambda>b. b \<notin> fst ` set cm) (filter (\<lambda>b. b \<noteq> a) (first_occurrences A)))"
      unfolding 1 [symmetric] using False 3 by simp
    show ?thesis
      unfolding step adjs lhs rhs ..
  qed
qed

lemma count_conclusions_items:
  "count_conclusions ext [] cs =
     map (\<lambda>a. (a, count_list (adjectives ext cs) a)) (first_occurrences (adjectives ext cs))"
  using count_conclusions_tally [of "[]" ext cs] by simp


lemma set_first_occurrences: "set (first_occurrences xs) = set xs"
  by (induction xs) auto

lemma distinct_first_occurrences: "distinct (first_occurrences xs)"
  by (induction xs) (auto simp: set_first_occurrences)

lemma length_first_occurrences: "length (first_occurrences xs) = card (set xs)"
  using distinct_card [OF distinct_first_occurrences, of xs]
  by (simp add: set_first_occurrences)

lemma first_occurrences_single:
  "xs \<noteq> [] \<Longrightarrow> \<forall>x\<in>set xs. x = a \<Longrightarrow> first_occurrences xs = [a]"
proof (induction xs)
  case Nil
  then show ?case by simp
next
  case (Cons x xs)
  show ?case
  proof (cases "xs = []")
    case True
    with Cons.prems show ?thesis by simp
  next
    case False
    with Cons show ?thesis by simp
  qed
qed

lemma count_list_all: "\<forall>x\<in>set xs. x = a \<Longrightarrow> count_list xs a = length xs"
  by (induction xs) auto

lemma summary_nonempty:
  assumes "checks cc \<noteq> []"
  shows "getCombinedCheckSummary ext (Some cc) =
     (if 1 < card (set (adjectives ext (checks cc)))
      then Inr (js_join '', '' (butlast (summary_items (adjectives ext (checks cc)))) @ '', and ''
                @ last (summary_items (adjectives ext (checks cc))) @ '' checks'')
      else (case first_occurrences (adjectives ext (checks cc)) of
              [] \<Rightarrow> Inl TypeError
            | a # _ \<Rightarrow>
                Inr (string_of_nat (count_list (adjectives ext (checks cc)) a) @ '' '' @ a @ '' ''
                     @ (if 1 < count_list (adjectives ext (checks cc)) a then ''checks'' else ''check''))))"
proof -
  have ne: "summary_items (adjectives ext (checks cc)) \<noteq> []"
    using assms by (cases "checks cc") (simp_all add: summary_items_def adjectives_def)
  have outp: "map (\<lambda>(cnt, concl). string_of_nat cnt @ '' '' @ concl)
          (map (\<lambda>(concl, cnt). (cnt, concl)) (count_conclusions ext [] (checks cc))) =
        summary_items (adjectives ext (checks cc))"
    by (simp add: count_conclusions_items summary_items_def comp_def)
  have outp': "map ((\<lambda>(cnt, concl). string_of_nat cnt @ '' '' @ concl) \<circ> (\<lambda>(concl, cnt). (cnt, concl)))
          (count_conclusions ext [] (checks cc)) =
        summary_items (adjectives ext (checks cc))"
    using outp by simp
  have len: "length (count_conclusions ext [] (checks cc)) = card (set (adjectives ext (checks cc)))"
    by (simp add: count_conclusions_items length_first_occurrences)
  have cne: "count_conclusions ext [] (checks cc) \<noteq> []"
    using assms by (simp add: count_conclusions_nonempty)
  show ?thesis
  proof (cases "1 < card (set (adjectives ext (checks cc)))")
    case True
    then show ?thesis
      using assms ne outp cne
      by (simp add: getCombinedCheckSummary_def Let_def len slice_init_def slice_last_def
          del: map_map)
  next
    case False
    have "first_occurrences (adjectives ext (checks cc)) \<noteq> []"
      using assms by (cases "checks cc") (simp_all add: adjectives_def)
    moreover have "length (first_occurrences (adjectives ext (checks cc))) \<le> 1"
      using False by (simp add: length_first_occurrences)
    ultimately obtain a where fo: "first_occurrences (adjectives ext (checks cc)) = [a]"
      by (cases "first_occurrences (adjectives ext (checks cc))") auto
    have cc_eq: "count_conclusions ext [] (checks cc) =
        [(a, count_list (adjectives ext (checks cc)) a)]"
      by (simp add: count_conclusions_items fo)
    show ?thesis
      using assms False by (simp add: getCombinedCheckSummary_def Let_def cc_eq fo)
  qed
qed

text \<open>
  Claim C9. \<open>getCombinedCheckSummary\<close> returns the empty string for \<open>null\<close> and for an
  empty list of checks. When every check has the same (lower-cased) conclusion adjective
  \<open>a\<close>, it returns the number of checks, \<open>a\<close>, and \<open>check\<close>, written \<open>checks\<close> exactly when
  there is more than one check. When more than one adjective occurs, it returns the
  items "\<open>count adjective\<close>" (one per adjective, in the order of first occurrence) with
  all but the last joined by a comma and a space, then "\<open>, and \<close>", the last item, and
  "\<open> checks\<close>", whatever the count of the last item.
\<close>

theorem getCombinedCheckSummary_format:
  "getCombinedCheckSummary ext None = Inr [] \<and>
   (checks cc = [] \<longrightarrow> getCombinedCheckSummary ext (Some cc) = Inr []) \<and>
   (checks cc \<noteq> [] \<and>
    (\<forall>check\<in>set (checks cc).
       toLocaleLowerCase ext (getCheckRunConclusionAdjective ext (conclusion check)) = a) \<longrightarrow>
      getCombinedCheckSummary ext (Some cc) =
        Inr (string_of_nat (length (checks cc)) @ '' '' @ a @ '' ''
             @ (if 1 < length (checks cc) then ''checks'' else ''check''))) \<and>
   (1 < card (set (adjectives ext (checks cc))) \<longrightarrow>
      getCombinedCheckSummary ext (Some cc) =
        Inr (js_join '', '' (butlast (summary_items (adjectives ext (checks cc)))) @ '', and ''
             @ last (summary_items (adjectives ext (checks cc))) @ '' checks''))"
proof (intro conjI impI)
  show "getCombinedCheckSummary ext None = Inr []"
    by (simp add: getCombinedCheckSummary_def)
next
  assume "checks cc = []"
  then show "getCombinedCheckSummary ext (Some cc) = Inr []"
    by (simp add: getCombinedCheckSummary_def)
next
  assume h: "checks cc \<noteq> [] \<and>
    (\<forall>check\<in>set (checks cc).
       toLocaleLowerCase ext (getCheckRunConclusionAdjective ext (conclusion check)) = a)"
  then have all: "\<forall>x\<in>set (adjectives ext (checks cc)). x = a"
    by (auto simp: adjectives_def)
  have ne: "adjectives ext (checks cc) \<noteq> []" using h by (simp add: adjectives_def)
  have "set (adjectives ext (checks cc)) = {a}" using all ne by (cases "adjectives ext (checks cc)") auto
  then have card: "card (set (adjectives ext (checks cc))) = 1" by simp
  have len: "length (adjectives ext (checks cc)) = length (checks cc)"
    by (simp add: adjectives_def)
  show "getCombinedCheckSummary ext (Some cc) =
        Inr (string_of_nat (length (checks cc)) @ '' '' @ a @ '' ''
             @ (if 1 < length (checks cc) then ''checks'' else ''check''))"
    using summary_nonempty [of cc ext] h
    by (simp add: card first_occurrences_single [OF ne all] count_list_all [OF all] len)
next
  assume c: "1 < card (set (adjectives ext (checks cc)))"
  then have "checks cc \<noteq> []" by (auto simp: adjectives_def)
  then show "getCombinedCheckSummary ext (Some cc) =
        Inr (js_join '', '' (butlast (summary_items (adjectives ext (checks cc)))) @ '', and ''
             @ last (summary_items (adjectives ext (checks cc))) @ '' checks'')"
    using summary_nonempty [of cc ext] c by simp
qed


theorem getCombinedCheckSummary_format_witness:
  "getCombinedCheckSummary sample_externals
     (Some \<lparr>checks = [sample_run ''build'' (Some Success)]\<rparr>) = Inr ''1 successful check'' \<and>
   getCombinedCheckSummary sample_externals
     (Some \<lparr>checks = [sample_run ''build'' (Some Success), sample_run ''lint'' (Some Success)]\<rparr>)
     = Inr ''2 successful checks'' \<and>
   getCombinedCheckSummary sample_externals
     (Some \<lparr>checks = [sample_run ''build'' (Some Success), sample_run ''lint'' (Some Failure),
                      sample_run ''e2e'' (Some Success), sample_run ''deploy'' None]\<rparr>)
     = Inr ''2 successful, 1 failed, and 1 in progress checks''"
proof -
  have low: "toLocaleLowerCase sample_externals
       (getCheckRunConclusionAdjective sample_externals (Some Success)) = ''successful''"
    by code_simp
  have several: "1 < card (set (adjectives sample_externals
      [sample_run ''build'' (Some Success), sample_run ''lint'' (Some Failure),
       sample_run ''e2e'' (Some Success), sample_run ''deploy'' None]))"
    by code_simp
  have items: "summary_items (adjectives sample_externals
      [sample_run ''build'' (Some Success), sample_run ''lint'' (Some Failure),
       sample_run ''e2e'' (Some Success), sample_run ''deploy'' None]) =
      [''2 successful'', ''1 failed'', ''1 in progress'']"
    by code_simp
  have concl: "\<And>nm k. conclusion (sample_run nm k) = k"
    by (simp add: sample_run_def)
  have one: "string_of_nat (Suc 0) = ''1''" and two: "string_of_nat (Suc (Suc 0)) = ''2''"
    by (simp_all add: string_of_nat.simps)
  show ?thesis
    using
      getCombinedCheckSummary_format [where ext = sample_externals and a = "''successful''"
        and cc = "\<lparr>checks = [sample_run ''build'' (Some Success)]\<rparr>"]
      getCombinedCheckSummary_format [where ext = sample_externals and a = "''successful''"
        and cc = "\<lparr>checks = [sample_run ''build'' (Some Success),
                             sample_run ''lint'' (Some Success)]\<rparr>"]
      getCombinedCheckSummary_format [where ext = sample_externals and a = "''successful''"
        and cc = "\<lparr>checks = [sample_run ''build'' (Some Success), sample_run ''lint'' (Some Failure),
                      sample_run ''e2e'' (Some Success), sample_run ''deploy'' None]\<rparr>"]
      several
    by (simp add: low items concl one two)
qed

end
